theory Spec2Isabelle
  imports Main "HOL-Library.Multiset"
begin

section \<open>JavaScript values of the token documents\<close>

text \<open>
  The token engine of \<^verbatim>\<open>src/theme/plugin.js\<close> works on the values that
  \<^verbatim>\<open>JSON.parse\<close> returns, plus \<^verbatim>\<open>undefined\<close> (what reading an absent
  property gives). An object is the list of its own properties in the order in which
  they were created; an array is the list of its elements. The spec's fields
  \<^emph>\<open>type\<close> and \<^emph>\<open>value\<close> of a token are the properties \<^verbatim>\<open>$type\<close> and
  \<^verbatim>\<open>$value\<close> of the source.

  Numbers are integers of magnitude below \<open>10^21\<close>, which JavaScript prints by their
  decimal digits. The names in the list of an object are meant to be distinct, as the
  names of the properties of an object are.
\<close>

datatype jsval =
    Undefined
  | Null
  | Bool bool
  | Num int
  | Str string
  | Arr "jsval list"
  | Obj "(string \<times> jsval) list"

text \<open>
  How a call ends when it does not return. \<open>TypeError\<close> and \<open>RangeError\<close> are the
  exceptions of JavaScript: the first is raised by reading a property of
  \<^verbatim>\<open>null\<close> or \<^verbatim>\<open>undefined\<close> and by converting to a string an object
  that cannot be converted, the second by a call for which the call stack has no room.

  \<open>Unmodelled\<close> is no exception of the program. It is the answer of the embedding for a
  run that leaves it: one that reads a member which a value inherits from a built-in
  prototype (\<^verbatim>\<open>constructor\<close>, \<^verbatim>\<open>toString\<close>, ...: functions and objects of
  the runtime, which have members of their own, some of them accessors that raise), or
  that changes the prototype of an object by an assignment to \<^verbatim>\<open>__proto__\<close>.
  Every other answer of the embedding is the one of the program.

  The depth of the call stack is a parameter of the text rewriter alone, whose recursion
  follows the references in the data. \<^verbatim>\<open>flattenTokens\<close> recurses as deep
  as the document nests, and \<^verbatim>\<open>resolveColorReference\<close> at most twelve calls
  deep: the embedding takes the stack to have room for these.
\<close>

datatype error = TypeError | RangeError | Unmodelled

datatype warning =
    DepthExceeded string
  | RefNotFound string string
  | RefMalformed string string
  | CssRefNotFound string
  | CssRefMalformed string
text \<open>Truthiness, as \<^verbatim>\<open>!v\<close>, \<^verbatim>\<open>a && b\<close> and \<^verbatim>\<open>a || b\<close> test it.\<close>

fun truthy :: "jsval \<Rightarrow> bool" where
  "truthy Undefined = False"
| "truthy Null = False"
| "truthy (Bool b) = b"
| "truthy (Num n) = (n \<noteq> 0)"
| "truthy (Str s) = (s \<noteq> [])"
| "truthy (Arr xs) = True"
| "truthy (Obj kvs) = True"

definition js_or :: "jsval \<Rightarrow> jsval \<Rightarrow> jsval" where
  "js_or a b = (if truthy a then a else b)"

fun js_typeof :: "jsval \<Rightarrow> string" where
  "js_typeof Undefined = ''undefined''"
| "js_typeof Null = ''object''"
| "js_typeof (Bool b) = ''boolean''"
| "js_typeof (Num n) = ''number''"
| "js_typeof (Str s) = ''string''"
| "js_typeof (Arr xs) = ''object''"
| "js_typeof (Obj kvs) = ''object''"

fun is_nullish :: "jsval \<Rightarrow> bool" where
  "is_nullish Undefined = True"
| "is_nullish Null = True"
| "is_nullish v = False"

fun is_array :: "jsval \<Rightarrow> bool" where
  "is_array (Arr xs) = True"
| "is_array v = False"

subsection \<open>Decimal numerals and array indices\<close>

definition digit_char :: "nat \<Rightarrow> char" where
  "digit_char d = ''0123456789'' ! d"

fun dec :: "nat \<Rightarrow> string" where
  "dec n = (if n < 10 then [digit_char n] else dec (n div 10) @ [digit_char (n mod 10)])"

declare dec.simps [simp del]

definition is_digit :: "char \<Rightarrow> bool" where
  "is_digit c = (c \<in> set ''0123456789'')"

definition digit_val :: "char \<Rightarrow> nat" where
  "digit_val c = of_char c - 48"

definition nat_of_digits :: "string \<Rightarrow> nat" where
  "nat_of_digits s = foldl (\<lambda>n c. 10 * n + digit_val c) 0 s"

text \<open>
  An array index is the canonical decimal numeral of an integer from \<open>0\<close> to
  \<open>2^32 - 2\<close>. Property names of this form are enumerated before all others.
\<close>

definition is_array_index :: "string \<Rightarrow> bool" where
  "is_array_index s =
     (s \<noteq> [] \<and> list_all is_digit s \<and> (s = ''0'' \<or> hd s \<noteq> CHR ''0'')
      \<and> nat_of_digits s < 4294967295)"

definition show_int :: "int \<Rightarrow> string" where
  "show_int i = (if i < 0 then CHR ''-'' # dec (nat (- i)) else dec (nat i))"

subsection \<open>Strings\<close>

text \<open>\<^verbatim>\<open>s.split(c)\<close> for a one-character separator: never an empty list.\<close>

fun split_on :: "char \<Rightarrow> string \<Rightarrow> string list" where
  "split_on c [] = [[]]"
| "split_on c (x # xs) =
     (if x = c then [] # split_on c xs
      else (case split_on c xs of
              [] \<Rightarrow> [[x]]
            | y # ys \<Rightarrow> (x # y) # ys))"

text \<open>\<^verbatim>\<open>xs.join(sep)\<close> on an array of strings.\<close>

fun join_with :: "string \<Rightarrow> string list \<Rightarrow> string" where
  "join_with sep [] = []"
| "join_with sep [x] = x"
| "join_with sep (x # y # ys) = x @ sep @ join_with sep (y # ys)"

text \<open>\<^verbatim>\<open>s.startsWith("{") && s.endsWith("}")\<close>.\<close>

definition bracketed :: "string \<Rightarrow> bool" where
  "bracketed s = (s \<noteq> [] \<and> hd s = CHR ''{'' \<and> last s = CHR ''}'')"

text \<open>\<^verbatim>\<open>typeof v === "string" && v.startsWith("{") && v.endsWith("}")\<close>.\<close>

fun is_bracketed :: "jsval \<Rightarrow> bool" where
  "is_bracketed (Str s) = bracketed s"
| "is_bracketed v = False"

text \<open>\<^verbatim>\<open>s.slice(1, -1)\<close>.\<close>

definition slice_inner :: "string \<Rightarrow> string" where
  "slice_inner s = butlast (tl s)"

subsection \<open>Reading and writing properties\<close>

text \<open>
  The string-named members of the built-in prototypes (ECMAScript 2025 with its Annex B):
  of \<^verbatim>\<open>Object.prototype\<close>, which every value that has properties inherits from,
  and of \<^verbatim>\<open>Array.prototype\<close>, \<^verbatim>\<open>String.prototype\<close> and
  \<^verbatim>\<open>Number.prototype\<close>; \<^verbatim>\<open>Boolean.prototype\<close> has no name that
  \<^verbatim>\<open>Object.prototype\<close> has not.
\<close>

definition object_members :: "string list" where
  "object_members =
     [''constructor'', ''hasOwnProperty'', ''isPrototypeOf'', ''propertyIsEnumerable'',
      ''toLocaleString'', ''toString'', ''valueOf'', ''__proto__'', ''__defineGetter__'',
      ''__defineSetter__'', ''__lookupGetter__'', ''__lookupSetter__'']"

definition array_members :: "string list" where
  "array_members =
     [''at'', ''concat'', ''copyWithin'', ''entries'', ''every'', ''fill'', ''filter'', ''find'',
      ''findIndex'', ''findLast'', ''findLastIndex'', ''flat'', ''flatMap'', ''forEach'',
      ''includes'', ''indexOf'', ''join'', ''keys'', ''lastIndexOf'', ''map'', ''pop'', ''push'',
      ''reduce'', ''reduceRight'', ''reverse'', ''shift'', ''slice'', ''some'', ''sort'',
      ''splice'', ''toReversed'', ''toSorted'', ''toSpliced'', ''unshift'', ''values'', ''with'']"

definition string_members :: "string list" where
  "string_members =
     [''at'', ''charAt'', ''charCodeAt'', ''codePointAt'', ''concat'', ''endsWith'', ''includes'',
      ''indexOf'', ''isWellFormed'', ''lastIndexOf'', ''localeCompare'', ''match'', ''matchAll'',
      ''normalize'', ''padEnd'', ''padStart'', ''repeat'', ''replace'', ''replaceAll'', ''search'',
      ''slice'', ''split'', ''startsWith'', ''substring'', ''toLocaleLowerCase'',
      ''toLocaleUpperCase'', ''toLowerCase'', ''toUpperCase'', ''toWellFormed'', ''trim'',
      ''trimEnd'', ''trimStart'', ''substr'', ''anchor'', ''big'', ''blink'', ''bold'', ''fixed'',
      ''fontcolor'', ''fontsize'', ''italics'', ''link'', ''small'', ''strike'', ''sub'', ''sup'',
      ''trimLeft'', ''trimRight'']"

definition number_members :: "string list" where
  "number_members = [''toExponential'', ''toFixed'', ''toPrecision'']"

text \<open>
  The own properties of an array and of a string: the indices below the length, and
  \<^verbatim>\<open>length\<close>.
\<close>

definition own_index :: "nat \<Rightarrow> string \<Rightarrow> bool" where
  "own_index n k = (is_array_index k \<and> nat_of_digits k < n \<or> k = ''length'')"

text \<open>
  \<open>inherited v k\<close>: the value \<open>v\<close> has no own property \<open>k\<close>, and \<open>k\<close> names a member
  of a prototype of \<open>v\<close>, so that \<^verbatim>\<open>v[k]\<close> is that member. The values have the
  prototypes that \<^verbatim>\<open>JSON.parse\<close> and an object literal give them.
\<close>

fun inherited :: "jsval \<Rightarrow> string \<Rightarrow> bool" where
  "inherited (Obj kvs) k = (map_of kvs k = None \<and> k \<in> set object_members)"
| "inherited (Arr xs) k =
     (\<not> own_index (length xs) k \<and> k \<in> set (array_members @ object_members))"
| "inherited (Str s) k =
     (\<not> own_index (length s) k \<and> k \<in> set (string_members @ object_members))"
| "inherited (Num n) k = (k \<in> set (number_members @ object_members))"
| "inherited (Bool b) k = (k \<in> set object_members)"
| "inherited v k = False"

text \<open>
  \<^verbatim>\<open>v[k]\<close> where \<open>k\<close> is not inherited, for a value that is neither
  \<^verbatim>\<open>null\<close> nor \<^verbatim>\<open>undefined\<close> (every call site below guards those two, or
  raises): the own property of that name, \<^verbatim>\<open>undefined\<close> when there is none. The
  names that the source reads by a literal, \<^verbatim>\<open>$type\<close>, \<^verbatim>\<open>$value\<close> and
  the five fields of a shadow, are members of no prototype.
\<close>

fun js_get :: "jsval \<Rightarrow> string \<Rightarrow> jsval" where
  "js_get (Obj kvs) k = (case map_of kvs k of Some v \<Rightarrow> v | None \<Rightarrow> Undefined)"
| "js_get (Arr xs) k =
     (if is_array_index k \<and> nat_of_digits k < length xs then xs ! nat_of_digits k
      else if k = ''length'' then Num (int (length xs))
      else Undefined)"
| "js_get (Str s) k =
     (if is_array_index k \<and> nat_of_digits k < length s then Str [s ! nat_of_digits k]
      else if k = ''length'' then Num (int (length s))
      else Undefined)"
| "js_get v k = Undefined"

text \<open>
  \<^verbatim>\<open>v[k]\<close> for a name \<open>k\<close> that the program takes from its input, a segment of a
  reference path: an inherited member is not followed.
\<close>

definition js_member :: "jsval \<Rightarrow> string \<Rightarrow> error + jsval" where
  "js_member v k = (if inherited v k then Inl Unmodelled else Inr (js_get v k))"

text \<open>
  The list of own properties after a property \<open>k\<close> has been given the value \<open>v\<close>: an
  existing property keeps its place, a new one is created last.
\<close>

fun put :: "(string \<times> jsval) list \<Rightarrow> string \<Rightarrow> jsval \<Rightarrow> (string \<times> jsval) list" where
  "put [] k v = [(k, v)]"
| "put ((k', v') # kvs) k v =
     (if k' = k then (k, v) # kvs else (k', v') # put kvs k v)"

text \<open>
  \<^verbatim>\<open>obj[k] = v\<close> on an object whose prototype is \<^verbatim>\<open>Object.prototype\<close>,
  as the \<^verbatim>\<open>{}\<close> that every caller of \<^verbatim>\<open>flattenTokens\<close> passes for
  \<^verbatim>\<open>result\<close>. The name \<^verbatim>\<open>__proto__\<close> is an accessor of that prototype:
  unless the object has an own property of that name, the assignment creates no property;
  it does nothing when \<open>v\<close> is a primitive value, and makes \<open>v\<close> the prototype of
  the object otherwise. Every other member of the prototype is a writable data property,
  which an assignment shadows with an own property.
\<close>

definition obj_set ::
  "(string \<times> jsval) list \<Rightarrow> string \<Rightarrow> jsval \<Rightarrow> error + (string \<times> jsval) list" where
  "obj_set kvs k v =
     (if k = ''__proto__'' \<and> map_of kvs k = None then
        (if js_typeof v = ''object'' then Inl Unmodelled else Inr kvs)
      else Inr (put kvs k v))"

text \<open>
  The order in which \<^verbatim>\<open>Object.entries\<close> enumerates the own properties of an
  object: the array indices in ascending numeric order, then the other names in creation
  order.
\<close>

definition own_entries :: "(string \<times> jsval) list \<Rightarrow> (string \<times> jsval) list" where
  "own_entries kvs =
     sort_key (\<lambda>kv. nat_of_digits (fst kv)) (filter (\<lambda>kv. is_array_index (fst kv)) kvs)
     @ filter (\<lambda>kv. \<not> is_array_index (fst kv)) kvs"

fun indexed :: "nat \<Rightarrow> jsval list \<Rightarrow> (string \<times> jsval) list" where
  "indexed i [] = []"
| "indexed i (x # xs) = (dec i, x) # indexed (Suc i) xs"

text \<open>
  \<^verbatim>\<open>Object.entries(v)\<close>: raises on \<^verbatim>\<open>null\<close> and \<^verbatim>\<open>undefined\<close>, is empty
  on numbers and booleans, and lists the characters of a string.
\<close>

fun entries_of :: "jsval \<Rightarrow> (string \<times> jsval) list" where
  "entries_of (Obj kvs) = own_entries kvs"
| "entries_of (Arr xs) = indexed 0 xs"
| "entries_of (Str s) = indexed 0 (map (\<lambda>c. Str [c]) s)"
| "entries_of v = []"

definition object_entries :: "jsval \<Rightarrow> error + (string \<times> jsval) list" where
  "object_entries v = (if is_nullish v then Inl TypeError else Inr (entries_of v))"

subsection \<open>Conversion to a string\<close>

text \<open>
  What a template literal and \<^verbatim>\<open>String.prototype.replace\<close> apply to a value. An
  object prints as \<^verbatim>\<open>[object Object]\<close> unless it has an own property
  \<^verbatim>\<open>toString\<close>: parsed data is never callable, so the conversion then raises a
  TypeError. An array prints its elements joined by commas, \<^verbatim>\<open>null\<close> and
  \<^verbatim>\<open>undefined\<close> as nothing.
\<close>

fun js_to_string :: "jsval \<Rightarrow> error + string"
  and join_elems :: "jsval list \<Rightarrow> error + string" where
  "js_to_string Undefined = Inr ''undefined''"
| "js_to_string Null = Inr ''null''"
| "js_to_string (Bool b) = Inr (if b then ''true'' else ''false'')"
| "js_to_string (Num n) = Inr (show_int n)"
| "js_to_string (Str s) = Inr s"
| "js_to_string (Arr xs) = join_elems xs"
| "js_to_string (Obj kvs) =
     (if ''toString'' \<in> set (map fst kvs) then Inl TypeError else Inr ''[object Object]'')"
| "join_elems [] = Inr []"
| "join_elems (x # xs) =
     (case (if is_nullish x then Inr [] else js_to_string x) of
        Inl e \<Rightarrow> Inl e
      | Inr s \<Rightarrow>
          (if xs = [] then Inr s
           else (case join_elems xs of
                   Inl e \<Rightarrow> Inl e
                 | Inr t \<Rightarrow> Inr (s @ '','' @ t))))"


text \<open>
  \<^verbatim>\<open>xs.map(f)\<close> for a callback that may raise: the first exception ends the
  call.
\<close>

fun map_all :: "('a \<Rightarrow> error + 'b) \<Rightarrow> 'a list \<Rightarrow> error + 'b list" where
  "map_all f [] = Inr []"
| "map_all f (x # xs) =
     (case f x of
        Inl e \<Rightarrow> Inl e
      | Inr y \<Rightarrow> (case map_all f xs of Inl e \<Rightarrow> Inl e | Inr ys \<Rightarrow> Inr (y # ys)))"

section \<open>The reference resolver\<close>

text \<open>
  The loop of \<^verbatim>\<open>resolveColorReference\<close> over the segments of the path:
  \<open>Inr (Inl path)\<close> the path walked so far when a segment is missing,
  \<open>Inr (Inr node)\<close> the node reached. The test
  \<^verbatim>\<open>!current || !current[part]\<close> reads the property only of a truthy value.
\<close>

fun walk :: "jsval \<Rightarrow> string list \<Rightarrow> string list \<Rightarrow> error + (string list + jsval)" where
  "walk current path [] = Inr (Inr current)"
| "walk current path (part # parts) =
     (if \<not> truthy current then Inr (Inl (path @ [part]))
      else
        (case js_member current part of
           Inl e \<Rightarrow> Inl e
         | Inr next \<Rightarrow>
             (if \<not> truthy next then Inr (Inl (path @ [part]))
              else walk next (path @ [part]) parts)))"

text \<open>
  \<^verbatim>\<open>resolveColorReference(value, allTokens, depth = 0)\<close>. The result is the
  returned value with the diagnostics printed by \<^verbatim>\<open>console.warn\<close>, or the
  exception raised while the depth diagnostic is formatted.
\<close>

function resolveColorReference ::
  "jsval \<Rightarrow> jsval \<Rightarrow> nat \<Rightarrow> error + jsval \<times> warning list" where
  "resolveColorReference val allTokens depth =
     (if depth > 10 then
        (case js_to_string val of
           Inl e \<Rightarrow> Inl e
         | Inr s \<Rightarrow> Inr (val, [DepthExceeded s]))
      else
        (case val of
           Str s \<Rightarrow>
             (if \<not> bracketed s then Inr (val, [])
              else
                (let reference = slice_inner s in
                 case walk allTokens [] (split_on CHR ''.'' reference) of
                   Inl e \<Rightarrow> Inl e
                 | Inr (Inl path) \<Rightarrow>
                     Inr (val, [RefNotFound reference (join_with ''.'' path)])
                 | Inr (Inr current) \<Rightarrow>
                     (if truthy current \<and> truthy (js_get current ''$value'') then
                        resolveColorReference (js_get current ''$value'') allTokens (depth + 1)
                      else if truthy current \<and> js_get current ''$type'' = Str ''color'' then
                        Inr (js_get current ''$value'', [])
                      else if js_typeof current = ''string'' then
                        resolveColorReference current allTokens (depth + 1)
                      else Inr (val, [RefMalformed reference (js_typeof current)]))))
         | _ \<Rightarrow> Inr (val, [])))"
  by pat_completeness auto
termination
  by (relation "measure (\<lambda>(v, a, d). 11 - d)") auto

declare resolveColorReference.simps [simp del]

section \<open>Shadow values\<close>

text \<open>The callback that \<^verbatim>\<open>processShadowValue\<close> maps over the array.\<close>

definition render_shadow :: "jsval \<Rightarrow> error + string" where
  "render_shadow shadow =
     (case shadow of
        Str s \<Rightarrow> Inr s
      | _ \<Rightarrow>
         (if js_typeof shadow = ''object'' \<and> shadow \<noteq> Null then
            (let offsetX = js_or (js_get shadow ''offsetX'') (Str ''0px'');
                 offsetY = js_or (js_get shadow ''offsetY'') (Str ''0px'');
                 blur = js_or (js_get shadow ''blur'') (Str ''0px'');
                 spread = js_or (js_get shadow ''spread'') (Str ''0px'');
                 color = js_or (js_get shadow ''color'') (Str ''transparent'')
             in case map_all js_to_string [offsetX, offsetY, blur, spread, color] of
                  Inl e \<Rightarrow> Inl e
                | Inr ss \<Rightarrow> Inr (join_with '' '' ss))
          else Inr ''none''))"

definition processShadowValue :: "jsval \<Rightarrow> error + jsval" where
  "processShadowValue val =
     (case val of
        Arr xs \<Rightarrow>
          (case map_all render_shadow xs of
             Inl e \<Rightarrow> Inl e
           | Inr ss \<Rightarrow> Inr (Str (join_with '', '' ss)))
      | _ \<Rightarrow> Inr val)"

section \<open>The flattener\<close>

definition entries_size :: "(string \<times> jsval) list \<Rightarrow> nat" where
  "entries_size es = sum_list (map (\<lambda>kv. Suc (size (snd kv))) es)"

lemma entries_size_indexed: "entries_size (indexed i xs) = size_list size xs"
  by (induction xs arbitrary: i) (auto simp: entries_size_def)

lemma entries_size_own: "entries_size (own_entries kvs) = entries_size kvs"
proof -
  let ?f = "\<lambda>kv. Suc (size (snd kv))"
  have "mset (own_entries kvs) = mset kvs"
    by (simp add: own_entries_def)
  then have "mset (map ?f (own_entries kvs)) = mset (map ?f kvs)"
    by (metis mset_map)
  then show ?thesis
    unfolding entries_size_def by (metis sum_mset_sum_list)
qed

lemma entries_size_le: "entries_size kvs \<le> size_list (size_prod (\<lambda>x. 0) size) kvs"
  by (induction kvs) (auto simp: entries_size_def)

lemma entries_of_size: "js_typeof v = ''object'' \<Longrightarrow> entries_size (entries_of v) \<le> size v"
  by (cases v)
     (auto simp: entries_size_indexed entries_size_own entries_size_def[of "[]"]
           intro: le_SucI entries_size_le)

text \<open>
  What \<^verbatim>\<open>flattenTokens\<close> stores under the key of a node that passed its leaf
  test (the chain of tests on \<^verbatim>\<open>value.$type\<close>): the spec's
  \<^emph>\<open>materialize\<close>.
\<close>

definition materialize :: "jsval \<Rightarrow> jsval \<Rightarrow> error + jsval \<times> warning list" where
  "materialize node allTokens =
     (if js_get node ''$type'' = Str ''color'' then
        resolveColorReference (js_get node ''$value'') allTokens 0
      else if js_get node ''$type'' = Str ''shadow'' then
        (case processShadowValue (js_get node ''$value'') of
           Inl e \<Rightarrow> Inl e
         | Inr v \<Rightarrow> Inr (v, []))
      else Inr (js_get node ''$value'', []))"

text \<open>
  The accumulator of \<^verbatim>\<open>flattenTokens\<close>: the own properties of \<^verbatim>\<open>result\<close>
  in creation order (\<^verbatim>\<open>Object.entries\<close> lists them as \<open>own_entries\<close> says), and
  the diagnostics printed so far.
\<close>

type_synonym flat = "(string \<times> jsval) list \<times> warning list"

text \<open>\<^verbatim>\<open>const newKey = prefix ? `${prefix}-${key}` : key\<close>.\<close>

definition new_key :: "string \<Rightarrow> string \<Rightarrow> string" where
  "new_key prefix key = (if prefix \<noteq> [] then prefix @ ''-'' @ key else key)"

text \<open>
  The \<^verbatim>\<open>for (const [key, value] of Object.entries(tokens))\<close> loop of
  \<^verbatim>\<open>flattenTokens\<close>, over the entries still to visit. Reading
  \<^verbatim>\<open>value.$type\<close> raises when the node is \<^verbatim>\<open>null\<close>. The recursive call
  passes the same \<^verbatim>\<open>result\<close> object, so its writes are seen by the rest of the
  loop.
\<close>

function flatten_entries ::
  "(string \<times> jsval) list \<Rightarrow> string \<Rightarrow> flat \<Rightarrow> jsval \<Rightarrow> error + flat" where
  "flatten_entries [] prefix st allTokens = Inr st"
| "flatten_entries ((key, val) # rest) prefix st allTokens =
     (if is_nullish val then Inl TypeError
      else if truthy (js_get val ''$type'') \<and> truthy (js_get val ''$value'') then
        (case materialize val allTokens of
           Inl e \<Rightarrow> Inl e
         | Inr (v, ws) \<Rightarrow>
             (case obj_set (fst st) (new_key prefix key) v of
                Inl e \<Rightarrow> Inl e
              | Inr kvs \<Rightarrow> flatten_entries rest prefix (kvs, snd st @ ws) allTokens))
      else if js_typeof val = ''object'' then
        (case flatten_entries (entries_of val) (new_key prefix key) st allTokens of
           Inl e \<Rightarrow> Inl e
         | Inr st' \<Rightarrow> flatten_entries rest prefix st' allTokens)
      else flatten_entries rest prefix st allTokens)"
  by pat_completeness auto
termination
  by (relation "measure (\<lambda>(es, p, st, a). entries_size es)")
     (auto simp: entries_size_def dest!: entries_of_size)

declare flatten_entries.simps [simp del]

text \<open>\<^verbatim>\<open>flattenTokens(tokens, prefix = "", result = {}, allTokens)\<close>.\<close>

definition flattenTokens ::
  "jsval \<Rightarrow> string \<Rightarrow> (string \<times> jsval) list \<Rightarrow> jsval \<Rightarrow> error + flat" where
  "flattenTokens tokens prefix result allTokens =
     (case object_entries tokens of
        Inl e \<Rightarrow> Inl e
      | Inr es \<Rightarrow> flatten_entries es prefix (result, []) allTokens)"

section \<open>The text rewriter\<close>

text \<open>
  A match of \<^verbatim>\<open>/\{([^{}]+)\}/\<close> at the start of the text: the captured reference
  and the text after the closing brace.
\<close>

definition not_brace :: "char \<Rightarrow> bool" where
  "not_brace c = (c \<noteq> CHR ''{'' \<and> c \<noteq> CHR ''}'')"

fun match_ref :: "string \<Rightarrow> (string \<times> string) option" where
  "match_ref [] = None"
| "match_ref (c # cs) =
     (if c = CHR ''{'' then
        (let r = takeWhile not_brace cs; t = dropWhile not_brace cs in
         if r \<noteq> [] \<and> t \<noteq> [] \<and> hd t = CHR ''}'' then Some (r, tl t) else None)
      else None)"

lemma match_ref_shorter: "match_ref s = Some (r, t) \<Longrightarrow> length t < length s"
proof (cases s)
  case Nil
  then show "match_ref s = Some (r, t) \<Longrightarrow> length t < length s" by simp
next
  case (Cons c cs)
  assume m: "match_ref s = Some (r, t)"
  have "length (dropWhile not_brace cs) \<le> length cs"
    by (rule length_dropWhile_le)
  with m Cons show "length t < length s"
    by (auto simp: Let_def split: if_splits)
qed

text \<open>
  The outcome of a call of the rewriter: the exception raised, or the value returned with
  the diagnostics printed.
\<close>

type_synonym 'a outcome = "error + 'a \<times> warning list"

text \<open>
  \<^verbatim>\<open>css.replace(/\{([^{}]+)\}/g, f)\<close>: the matches are found from left to right,
  the callback \<open>f\<close> is given the match and the captured reference, and what it returns
  is converted to a string and put in the place of the match.
\<close>

function replace_refs ::
  "(string \<Rightarrow> string \<Rightarrow> jsval outcome) \<Rightarrow> string \<Rightarrow> string outcome" where
  "replace_refs f [] = Inr ([], [])"
| "replace_refs f (c # cs) =
     (case match_ref (c # cs) of
        Some (r, rest) \<Rightarrow>
          (case f (CHR ''{'' # r @ ''}'') r of
             Inl e \<Rightarrow> Inl e
           | Inr (v, ws) \<Rightarrow>
               (case js_to_string v of
                  Inl e \<Rightarrow> Inl e
                | Inr rep \<Rightarrow>
                    (case replace_refs f rest of
                       Inl e \<Rightarrow> Inl e
                     | Inr (out, ws') \<Rightarrow> Inr (rep @ out, ws @ ws'))))
      | None \<Rightarrow>
          (case replace_refs f cs of
             Inl e \<Rightarrow> Inl e
           | Inr (out, ws) \<Rightarrow> Inr (c # out, ws)))"
  by pat_completeness auto
termination
  by (relation "measure (\<lambda>(f, s). length s)")
     (auto dest: match_ref_shorter simp del: match_ref.simps)

declare replace_refs.simps [simp del]

text \<open>
  The loop of the callback over the segments of the path, with its retry on a segment
  that contains a dash: \<open>Inr None\<close> when the reference is not found. The test
  \<^verbatim>\<open>!value || !value[part]\<close> reads the property only of a truthy value; the
  retry reads \<^verbatim>\<open>value[parent]\<close>, which raises when \<^verbatim>\<open>value\<close> is
  \<^verbatim>\<open>null\<close> or \<^verbatim>\<open>undefined\<close>, and \<^verbatim>\<open>value[parent][child]\<close> only
  when \<^verbatim>\<open>value[parent]\<close> is truthy.
\<close>

fun css_walk :: "jsval \<Rightarrow> string list \<Rightarrow> error + jsval option" where
  "css_walk v [] = Inr (Some v)"
| "css_walk v (part # parts) =
     (case (if truthy v then js_member v part else Inr Undefined) of
        Inl e \<Rightarrow> Inl e
      | Inr next \<Rightarrow>
          (if truthy next then css_walk next parts
           else if CHR ''-'' \<in> set part then
             (if is_nullish v then Inl TypeError
              else
                (case split_on CHR ''-'' part of
                   parent # child # more \<Rightarrow>
                     (case js_member v parent of
                        Inl e \<Rightarrow> Inl e
                      | Inr p \<Rightarrow>
                          (if \<not> truthy p then Inr None
                           else
                             (case js_member p child of
                                Inl e \<Rightarrow> Inl e
                              | Inr c \<Rightarrow>
                                  (if truthy c then css_walk c parts else Inr None))))
                 | _ \<Rightarrow> Inr None))
           else Inr None))"

definition starts_with :: "string \<Rightarrow> string \<Rightarrow> bool" where
  "starts_with p s = (take (length p) s = p)"

text \<open>
  The callback of \<^verbatim>\<open>resolveCSSReferences\<close>; \<open>recur\<close> stands for the recursive
  call \<^verbatim>\<open>resolveCSSReferences(_, allTokens)\<close>.
\<close>

definition css_callback ::
  "(string \<Rightarrow> string outcome) \<Rightarrow> jsval \<Rightarrow> string \<Rightarrow> string \<Rightarrow> jsval outcome" where
  "css_callback recur allTokens mtch reference =
     (case css_walk allTokens (split_on CHR ''.'' reference) of
        Inl e \<Rightarrow> Inl e
      | Inr None \<Rightarrow> Inr (Str mtch, [CssRefNotFound reference])
      | Inr (Some v) \<Rightarrow>
          (if truthy v \<and> js_get v ''$value'' \<noteq> Undefined then
             (case js_get v ''$value'' of
                Str s \<Rightarrow>
                  (if bracketed s then map_sum id (map_prod Str id) (recur s)
                   else Inr (Str s, []))
              | w \<Rightarrow> Inr (w, []))
           else if starts_with ''--'' reference then
             Inr (Str (''var('' @ reference @ '')''), [])
           else
             (case v of
                Str s \<Rightarrow>
                  (if bracketed s then map_sum id (map_prod Str id) (recur s)
                   else Inr (Str s, []))
              | _ \<Rightarrow> Inr (Str mtch, [CssRefMalformed reference]))))"

text \<open>
  \<^verbatim>\<open>resolveCSSReferences(css, allTokens)\<close>. The source puts no bound on the
  recursion, and every nested call stands on the call stack above the one that made it:
  the first argument is the number of nested calls of \<^verbatim>\<open>resolveCSSReferences\<close>
  that the stack has room for, and a call for which there is no room raises a
  \<open>RangeError\<close>.
\<close>

fun resolveCSSReferences :: "nat \<Rightarrow> string \<Rightarrow> jsval \<Rightarrow> string outcome" where
  "resolveCSSReferences 0 css allTokens = Inl RangeError"
| "resolveCSSReferences (Suc n) css allTokens =
     replace_refs (css_callback (\<lambda>s. resolveCSSReferences n s allTokens) allTokens) css"


section \<open>Shadow components, field by field\<close>

text \<open>
  A field of a shadow component as the template literal of \<^verbatim>\<open>processShadowValue\<close>
  prints it: \<^verbatim>\<open>shadow.name || dflt\<close>, converted to a string.
\<close>

definition shadow_field :: "jsval \<Rightarrow> string \<Rightarrow> string \<Rightarrow> error + string" where
  "shadow_field shadow name dflt =
     (if truthy (js_get shadow name) then js_to_string (js_get shadow name) else Inr dflt)"

text \<open>
  The same field in the words of the specification: the default stands in for a field
  that is missing, and a field that is present is printed.
\<close>

definition claimed_field :: "jsval \<Rightarrow> string \<Rightarrow> string \<Rightarrow> error + string" where
  "claimed_field shadow name dflt =
     (if js_get shadow name = Undefined then Inr dflt else js_to_string (js_get shadow name))"

definition shadow_fields :: "(string \<times> string) list" where
  "shadow_fields =
     [(''offsetX'', ''0px''), (''offsetY'', ''0px''), (''blur'', ''0px''),
      (''spread'', ''0px''), (''color'', ''transparent'')]"

definition claimed_render :: "jsval \<Rightarrow> error + string" where
  "claimed_render shadow =
     (case map_all (\<lambda>(name, dflt). claimed_field shadow name dflt) shadow_fields of
        Inl e \<Rightarrow> Inl e
      | Inr ss \<Rightarrow> Inr (join_with '' '' ss))"

section \<open>Properties of the resolver on literals\<close>

lemma resolve_not_bracketed:
  "\<not> is_bracketed v \<Longrightarrow> depth \<le> 10 \<Longrightarrow> resolveColorReference v allTokens depth = Inr (v, [])"
  by (cases v) (simp_all add: resolveColorReference.simps)

text \<open>
  C8. A color-typed leaf whose value is a literal is materialized to that literal,
  unchanged and without a diagnostic: \<^verbatim>\<open>resolveColorReference\<close>, called with
  its default depth, is the identity on every value that is not a string of the form
  \<^verbatim>\<open>{...}\<close>.
\<close>

theorem color_literal_unchanged:
  assumes "\<not> is_bracketed v"
  shows "resolveColorReference v allTokens 0 = Inr (v, [])
       \<and> (js_get node ''$type'' = Str ''color'' \<and> js_get node ''$value'' = v
            \<longrightarrow> materialize node allTokens = Inr (v, []))"
  using assms by (simp add: materialize_def resolve_not_bracketed)

theorem color_literal_unchanged_witness:
  "\<not> is_bracketed (Str ''#112233'')
   \<and> resolveColorReference (Str ''#112233'') (Obj []) 0 = Inr (Str ''#112233'', [])
   \<and> materialize (Obj [(''$type'', Str ''color''), (''$value'', Str ''#112233'')]) (Obj [])
       = Inr (Str ''#112233'', [])"
  using color_literal_unchanged
    [where v = "Str ''#112233''" and allTokens = "Obj []"
       and node = "Obj [(''$type'', Str ''color''), (''$value'', Str ''#112233'')]"]
  by (simp add: bracketed_def)

section \<open>Properties of shadow materialization\<close>

lemma map_all_Inr_iff: "map_all f xs = Inr ys \<longleftrightarrow> list_all2 (\<lambda>x y. f x = Inr y) xs ys"
proof (induction xs arbitrary: ys)
  case Nil
  then show ?case by auto
next
  case (Cons x xs)
  show ?case
    by (cases ys) (auto simp: Cons.IH[symmetric] split: sum.splits)
qed

lemma field_string: "js_to_string (js_or (js_get x n) (Str d)) = shadow_field x n d"
  by (simp add: js_or_def shadow_field_def)

lemma render_shadow_object:
  assumes "js_typeof x = ''object''" "x \<noteq> Null"
  shows "render_shadow x =
     (case map_all (\<lambda>(name, dflt). shadow_field x name dflt) shadow_fields of
        Inl e \<Rightarrow> Inl e
      | Inr ss \<Rightarrow> Inr (join_with '' '' ss))"
proof -
  have "render_shadow x =
     (case map_all js_to_string
        [js_or (js_get x ''offsetX'') (Str ''0px''), js_or (js_get x ''offsetY'') (Str ''0px''),
         js_or (js_get x ''blur'') (Str ''0px''), js_or (js_get x ''spread'') (Str ''0px''),
         js_or (js_get x ''color'') (Str ''transparent'')] of
        Inl e \<Rightarrow> Inl e
      | Inr ss \<Rightarrow> Inr (join_with '' '' ss))"
    using assms by (cases x) (simp_all add: render_shadow_def Let_def del: js_get.simps)
  then show ?thesis
    by (simp add: shadow_fields_def field_string del: js_get.simps split: sum.splits)
qed

text \<open>
  C5, as stated, fails on a field that is present but falsy: the component
  \<^verbatim>\<open>{offsetX: 0, color: "red"}\<close> is rendered with the default \<^verbatim>\<open>0px\<close> in
  the place of its \<^verbatim>\<open>offsetX\<close>, where the claim prints the field that is there.
\<close>

theorem shadow_counterexample:
  "render_shadow (Obj [(''offsetX'', Num 0), (''color'', Str ''red'')]) = Inr ''0px 0px 0px 0px red''
   \<and> claimed_render (Obj [(''offsetX'', Num 0), (''color'', Str ''red'')]) = Inr ''0 0px 0px 0px red''
   \<and> processShadowValue (Arr [Obj [(''offsetX'', Num 0), (''color'', Str ''red'')]])
       = Inr (Str ''0px 0px 0px 0px red'')"
  by (simp add: render_shadow_def claimed_render_def claimed_field_def shadow_fields_def js_or_def
      processShadowValue_def show_int_def dec.simps digit_char_def)

text \<open>
  C5, amended. A shadow-typed leaf is materialized by \<^verbatim>\<open>processShadowValue\<close>.
  A value that is not an array is returned as it is. In an array, a string element
  passes through; an element of type object other than \<^verbatim>\<open>null\<close> is rendered as
  its five fields \<^verbatim>\<open>offsetX offsetY blur spread color\<close> separated by spaces, where
  a field that is missing or falsy takes its default (\<^verbatim>\<open>0px\<close>,
  \<^verbatim>\<open>transparent\<close>) and a non-empty string field stands for itself; any other
  element is rendered as \<^verbatim>\<open>none\<close>; the rendered elements are joined with a comma
  and a space. The component \<^verbatim>\<open>{offsetX: "1px", color: "red"}\<close> gives
  \<^verbatim>\<open>1px 0px 0px 0px red\<close>.
\<close>

theorem shadow_materialization:
  "(\<not> is_array v \<longrightarrow> processShadowValue v = Inr v)
   \<and> (list_all2 (\<lambda>x r. render_shadow x = Inr r) xs rs
        \<longrightarrow> processShadowValue (Arr xs) = Inr (Str (join_with '', '' rs)))
   \<and> render_shadow (Str s) = Inr s
   \<and> (js_typeof x = ''object'' \<and> x \<noteq> Null
        \<and> shadow_field x ''offsetX'' ''0px'' = Inr ox
        \<and> shadow_field x ''offsetY'' ''0px'' = Inr oy
        \<and> shadow_field x ''blur'' ''0px'' = Inr bl
        \<and> shadow_field x ''spread'' ''0px'' = Inr sp
        \<and> shadow_field x ''color'' ''transparent'' = Inr co
        \<longrightarrow> render_shadow x = Inr (ox @ '' '' @ oy @ '' '' @ bl @ '' '' @ sp @ '' '' @ co))
   \<and> (js_typeof y \<noteq> ''object'' \<and> js_typeof y \<noteq> ''string'' \<or> y = Null
        \<longrightarrow> render_shadow y = Inr ''none'')
   \<and> (\<not> truthy (js_get x absent) \<longrightarrow> shadow_field x absent dflt = Inr dflt)
   \<and> (js_get x name = Str t \<and> t \<noteq> [] \<longrightarrow> shadow_field x name dflt = Inr t)
   \<and> (js_get node ''$type'' = Str ''shadow''
        \<longrightarrow> materialize node allTokens
            = map_sum id (\<lambda>r. (r, [])) (processShadowValue (js_get node ''$value'')))
   \<and> processShadowValue (Arr [Obj [(''offsetX'', Str ''1px''), (''color'', Str ''red'')]])
       = Inr (Str ''1px 0px 0px 0px red'')"
proof -
  have a: "\<not> is_array v \<longrightarrow> processShadowValue v = Inr v"
    by (cases v) (simp_all add: processShadowValue_def)
  have b: "list_all2 (\<lambda>x r. render_shadow x = Inr r) xs rs
        \<longrightarrow> processShadowValue (Arr xs) = Inr (Str (join_with '', '' rs))"
    by (simp add: processShadowValue_def map_all_Inr_iff[symmetric])
  have c: "render_shadow (Str s) = Inr s"
    by (simp add: render_shadow_def)
  have d: "js_typeof x = ''object'' \<and> x \<noteq> Null
        \<and> shadow_field x ''offsetX'' ''0px'' = Inr ox
        \<and> shadow_field x ''offsetY'' ''0px'' = Inr oy
        \<and> shadow_field x ''blur'' ''0px'' = Inr bl
        \<and> shadow_field x ''spread'' ''0px'' = Inr sp
        \<and> shadow_field x ''color'' ''transparent'' = Inr co
        \<longrightarrow> render_shadow x = Inr (ox @ '' '' @ oy @ '' '' @ bl @ '' '' @ sp @ '' '' @ co)"
    by (simp add: render_shadow_object shadow_fields_def)
  have e: "js_typeof y \<noteq> ''object'' \<and> js_typeof y \<noteq> ''string'' \<or> y = Null
        \<longrightarrow> render_shadow y = Inr ''none''"
    by (cases y) (simp_all add: render_shadow_def)
  have f: "\<not> truthy (js_get x absent) \<longrightarrow> shadow_field x absent dflt = Inr dflt"
    by (simp add: shadow_field_def)
  have g: "js_get x name = Str t \<and> t \<noteq> [] \<longrightarrow> shadow_field x name dflt = Inr t"
    by (simp add: shadow_field_def)
  have h: "js_get node ''$type'' = Str ''shadow''
        \<longrightarrow> materialize node allTokens
            = map_sum id (\<lambda>r. (r, [])) (processShadowValue (js_get node ''$value''))"
    by (simp add: materialize_def split: sum.splits)
  have i: "processShadowValue (Arr [Obj [(''offsetX'', Str ''1px''), (''color'', Str ''red'')]])
       = Inr (Str ''1px 0px 0px 0px red'')"
    by (simp add: processShadowValue_def render_shadow_def js_or_def)
  from a b c d e f g h i show ?thesis by blast
qed

theorem shadow_materialization_witness:
  "processShadowValue (Str ''0 0 2px black'') = Inr (Str ''0 0 2px black'')
   \<and> processShadowValue
        (Arr [Str ''inset 0 0 1px red'', Obj [(''offsetX'', Str ''1px''), (''color'', Str ''red'')],
              Num 3])
       = Inr (Str ''inset 0 0 1px red, 1px 0px 0px 0px red, none'')
   \<and> render_shadow (Obj [(''offsetX'', Str ''1px''), (''color'', Str ''red'')])
       = Inr ''1px 0px 0px 0px red''
   \<and> render_shadow (Num 3) = Inr ''none''
   \<and> shadow_field (Obj [(''offsetX'', Str ''1px''), (''color'', Str ''red'')]) ''blur'' ''0px''
       = Inr ''0px''
   \<and> shadow_field (Obj [(''offsetX'', Str ''1px''), (''color'', Str ''red'')]) ''color''
        ''transparent'' = Inr ''red''
   \<and> materialize
        (Obj [(''$type'', Str ''shadow''),
              (''$value'', Arr [Obj [(''offsetX'', Str ''1px''), (''color'', Str ''red'')]])])
        (Obj [])
       = Inr (Str ''1px 0px 0px 0px red'', [])"
proof -
  let ?c = "Obj [(''offsetX'', Str ''1px''), (''color'', Str ''red'')]"
  have fields:
    "shadow_field ?c ''offsetX'' ''0px'' = Inr ''1px''"
    "shadow_field ?c ''offsetY'' ''0px'' = Inr ''0px''"
    "shadow_field ?c ''blur'' ''0px'' = Inr ''0px''"
    "shadow_field ?c ''spread'' ''0px'' = Inr ''0px''"
    "shadow_field ?c ''color'' ''transparent'' = Inr ''red''"
    by (simp_all add: shadow_field_def)
  have r: "render_shadow ?c = Inr ''1px 0px 0px 0px red''"
    using shadow_materialization
      [where x = ?c and ox = "''1px''" and oy = "''0px''" and bl = "''0px''" and sp = "''0px''"
         and co = "''red''"]
    by (simp add: fields)
  show ?thesis
    using r shadow_materialization
      [where v = "Str ''0 0 2px black''"
         and xs = "[Str ''inset 0 0 1px red'', ?c, Num 3]"
         and rs = "[''inset 0 0 1px red'', ''1px 0px 0px 0px red'', ''none'']"
         and s = "''inset 0 0 1px red''"
         and x = ?c and ox = "''1px''" and oy = "''0px''" and bl = "''0px''" and sp = "''0px''"
         and co = "''red''" and y = "Num 3" and absent = "''blur''" and dflt = "''0px''"
         and name = "''offsetX''" and t = "''1px''"
         and node = "Obj [(''$type'', Str ''shadow''), (''$value'', Arr [?c])]"
         and allTokens = "Obj []"]
    by (simp add: fields)
qed


section \<open>Properties of the flattener\<close>

lemma map_of_put: "map_of (put kvs k v) k' = (if k' = k then Some v else map_of kvs k')"
  by (induction kvs) auto

lemma map_of_obj_set:
  "obj_set kvs k v = Inr kvs' \<Longrightarrow> k' \<noteq> k \<Longrightarrow> map_of kvs' k' = map_of kvs k'"
  by (auto simp: obj_set_def map_of_put split: if_splits)


lemma flatten_entries_Nil: "flatten_entries [] prefix st allTokens = Inr st"
  by (auto simp: flatten_entries.simps)

lemma flatten_entries_null:
  "is_nullish val \<Longrightarrow> flatten_entries ((key, val) # rest) prefix st allTokens = Inl TypeError"
  by (auto simp: flatten_entries.simps)


lemma flatten_entries_nested:
  "\<not> is_nullish val \<Longrightarrow> \<not> (truthy (js_get val ''$type'') \<and> truthy (js_get val ''$value'')) \<Longrightarrow>
   js_typeof val = ''object'' \<Longrightarrow>
   flatten_entries ((key, val) # rest) prefix st allTokens =
     (case flatten_entries (entries_of val) (new_key prefix key) st allTokens of
        Inl e \<Rightarrow> Inl e
      | Inr st' \<Rightarrow> flatten_entries rest prefix st' allTokens)"
  by (auto simp: flatten_entries.simps)


text \<open>The keys that an entry reached from \<open>prefix\<close> can be stored under.\<close>

definition under :: "string \<Rightarrow> string \<Rightarrow> bool" where
  "under prefix k = (prefix = [] \<or> starts_with (prefix @ ''-'') k)"

lemma under_new_key: "under prefix (new_key prefix key)"
  by (simp add: under_def new_key_def starts_with_def)

lemma starts_with_iff: "starts_with p s \<longleftrightarrow> (\<exists>r. s = p @ r)"
  unfolding starts_with_def by (metis append_eq_conv_conj append_take_drop_id)

lemma under_trans: "under (new_key prefix key) k \<Longrightarrow> new_key prefix key \<noteq> [] \<Longrightarrow> under prefix k"
  by (auto simp: under_def new_key_def starts_with_iff split: if_splits)

lemma flatten_entries_frame:
  "flatten_entries es prefix st allTokens = Inr st' \<Longrightarrow> prefix \<noteq> [] \<Longrightarrow> \<not> under prefix k \<Longrightarrow>
   map_of (fst st') k = map_of (fst st) k"
proof (induction es prefix st allTokens arbitrary: st' rule: flatten_entries.induct)
  case (1 prefix st allTokens)
  then show ?case by (simp add: flatten_entries.simps)
next
  case (2 key val rest prefix st allTokens)
  have nk: "new_key prefix key \<noteq> []" using "2.prems"(2) by (simp add: new_key_def)
  have kne: "k \<noteq> new_key prefix key" using "2.prems"(3) under_new_key by blast
  have nu: "\<not> under (new_key prefix key) k" using "2.prems"(3) under_trans nk by blast
  show ?case
  proof (cases "is_nullish val")
    case True
    with "2.prems"(1) show ?thesis by (simp add: flatten_entries.simps)
  next
    case nn: False
    show ?thesis
    proof (cases "truthy (js_get val ''$type'') \<and> truthy (js_get val ''$value'')")
      case leaf: True
      then obtain v ws where m: "materialize val allTokens = Inr (v, ws)"
        using "2.prems"(1) nn by (auto simp: flatten_entries.simps split: sum.splits)
      then obtain kvs where o: "obj_set (fst st) (new_key prefix key) v = Inr kvs"
        using "2.prems"(1) nn leaf by (auto simp: flatten_entries.simps split: sum.splits)
      have r: "flatten_entries rest prefix (kvs, snd st @ ws) allTokens = Inr st'"
        using "2.prems"(1) nn leaf m o by (simp add: flatten_entries.simps)
      have "map_of (fst st') k = map_of kvs k"
        using "2.IH"(1)[OF nn leaf m refl o r "2.prems"(2) "2.prems"(3)] by simp
      then show ?thesis using kne map_of_obj_set[OF o] by simp
    next
      case nl: False
      show ?thesis
      proof (cases "js_typeof val = ''object''")
        case obj: True
        then obtain st1 where
          a: "flatten_entries (entries_of val) (new_key prefix key) st allTokens = Inr st1"
          and b: "flatten_entries rest prefix st1 allTokens = Inr st'"
          using "2.prems"(1) nn nl by (auto simp: flatten_entries.simps split: sum.splits)
        have "map_of (fst st1) k = map_of (fst st) k"
          using "2.IH"(2)[OF nn nl obj a nk nu] .
        moreover have "map_of (fst st') k = map_of (fst st1) k"
          using "2.IH"(3)[OF nn nl obj a b "2.prems"(2) "2.prems"(3)] .
        ultimately show ?thesis by simp
      next
        case no: False
        then have "flatten_entries rest prefix st allTokens = Inr st'"
          using "2.prems"(1) nn nl by (auto simp: flatten_entries.simps)
        then show ?thesis
          using "2.IH"(4)[OF nn nl no _ "2.prems"(2) "2.prems"(3)] by simp
      qed
    qed
  qed
qed

lemma not_index_foo: "\<not> is_array_index ''foo''"
  by (simp add: is_array_index_def is_digit_def)

lemma not_under_self: "p \<noteq> [] \<Longrightarrow> \<not> under p p"
  by (auto simp: under_def starts_with_iff)

text \<open>
  C3. The flattener skips a node that is neither a leaf nor an object, such as the
  number in \<^verbatim>\<open>{foo: 42}\<close>, without output, diagnostic or exception. It does raise
  on a node that is \<^verbatim>\<open>null\<close>: the leaf test reads \<^verbatim>\<open>value.$type\<close> before
  anything has looked at what \<^verbatim>\<open>value\<close> is, so \<^verbatim>\<open>{foo: null}\<close> ends the
  run with a TypeError.
\<close>

theorem flatten_null_node_raises:
  "flattenTokens (Obj [(''foo'', Null)]) [] [] allTokens = Inl TypeError
   \<and> flattenTokens (Obj [(''foo'', Num 42)]) [] [] allTokens = Inr ([], [])"
  by (simp add: flattenTokens_def object_entries_def own_entries_def not_index_foo
      flatten_entries.simps)

text \<open>
  C10, as stated, fails in one corner: under the empty prefix a node named by the empty
  string has the empty flattened key, which the entries below it share. Such a node with
  a falsy value and a leaf named by the empty string inside puts an entry under its own
  key.
\<close>

theorem falsy_value_empty_key_counterexample:
  "flattenTokens
     (Obj [([], Obj [(''$type'', Str ''color''), (''$value'', Str []),
                     ([], Obj [(''$type'', Str ''color''), (''$value'', Str ''#fff'')])])])
     [] [] (Obj [])
   = Inr ([([], Str ''#fff'')], [])"
  by (simp add: flattenTokens_def object_entries_def own_entries_def is_array_index_def
      is_digit_def flatten_entries.simps new_key_def materialize_def resolve_not_bracketed
      bracketed_def obj_set_def)

text \<open>
  C10, amended. The leaf test of the flattener is on the truthiness of the fields: a node
  whose value field is the empty string, \<open>0\<close> or \<^verbatim>\<open>false\<close> is not a leaf,
  whatever its type field is. The loop treats it as a nested namespace, and, when its
  flattened key is not the empty string, the output keeps under that key what it had
  before.
\<close>

theorem falsy_value_not_a_leaf:
  assumes "map_of kvs ''$value'' = Some v" and "v = Str [] \<or> v = Num 0 \<or> v = Bool False"
  shows "flatten_entries ((key, Obj kvs) # rest) prefix st allTokens =
           (case flatten_entries (entries_of (Obj kvs)) (new_key prefix key) st allTokens of
              Inl e \<Rightarrow> Inl e
            | Inr st' \<Rightarrow> flatten_entries rest prefix st' allTokens)
       \<and> (new_key prefix key \<noteq> [] \<longrightarrow>
            (\<forall>st'. flatten_entries (entries_of (Obj kvs)) (new_key prefix key) st allTokens = Inr st'
               \<longrightarrow> map_of (fst st') (new_key prefix key) = map_of (fst st) (new_key prefix key)))"
proof -
  have falsy: "\<not> truthy (js_get (Obj kvs) ''$value'')"
    using assms by auto
  then have "flatten_entries ((key, Obj kvs) # rest) prefix st allTokens =
           (case flatten_entries (entries_of (Obj kvs)) (new_key prefix key) st allTokens of
              Inl e \<Rightarrow> Inl e
            | Inr st' \<Rightarrow> flatten_entries rest prefix st' allTokens)"
    by (intro flatten_entries_nested) simp_all
  moreover have "new_key prefix key \<noteq> [] \<longrightarrow>
            (\<forall>st'. flatten_entries (entries_of (Obj kvs)) (new_key prefix key) st allTokens = Inr st'
               \<longrightarrow> map_of (fst st') (new_key prefix key) = map_of (fst st) (new_key prefix key))"
    using flatten_entries_frame not_under_self by blast
  ultimately show ?thesis by blast
qed

theorem falsy_value_not_a_leaf_witness:
  "flatten_entries
     [(''gap'', Obj [(''$type'', Str ''dimension''), (''$value'', Num 0),
                     (''sub'', Obj [(''$type'', Str ''dimension''), (''$value'', Str ''1px'')])])]
     ''set'' ([], []) (Obj [])
   = Inr ([(''set-gap-sub'', Str ''1px'')], [])
   \<and> map_of [(''set-gap-sub'', Str ''1px'')] ''set-gap'' = map_of [] ''set-gap''"
proof -
  let ?kvs = "[(''$type'', Str ''dimension''), (''$value'', Num 0),
               (''sub'', Obj [(''$type'', Str ''dimension''), (''$value'', Str ''1px'')])]"
  have e: "flatten_entries (entries_of (Obj ?kvs)) ''set-gap'' ([], []) (Obj [])
           = Inr ([(''set-gap-sub'', Str ''1px'')], [])"
    by (simp add: own_entries_def is_array_index_def is_digit_def flatten_entries.simps
        materialize_def new_key_def obj_set_def)
  show ?thesis
    using falsy_value_not_a_leaf
      [where kvs = ?kvs and v = "Num 0"
         and key = "''gap''" and rest = "[]" and prefix = "''set''" and st = "([], [])"
         and allTokens = "Obj []"]
    by (simp add: new_key_def e flatten_entries.simps del: entries_of.simps)
qed


section \<open>The order of the flattened keys\<close>
























section \<open>Reference chains\<close>















text \<open>A store with a chain of twelve links, from \<^verbatim>\<open>{t1}\<close> to \<^verbatim>\<open>#000\<close>.\<close>

definition color_token :: "string \<Rightarrow> jsval" where
  "color_token v = Obj [(''$type'', Str ''color''), (''$value'', Str v)]"

definition chain12 :: jsval where
  "chain12 =
     Obj [(''t1'', color_token ''{t2}''), (''t2'', color_token ''{t3}''),
          (''t3'', color_token ''{t4}''), (''t4'', color_token ''{t5}''),
          (''t5'', color_token ''{t6}''), (''t6'', color_token ''{t7}''),
          (''t7'', color_token ''{t8}''), (''t8'', color_token ''{t9}''),
          (''t9'', color_token ''{t10}''), (''t10'', color_token ''{t11}''),
          (''t11'', color_token ''{t12}''), (''t12'', color_token ''#000'')]"









section \<open>Occurrences in the rewritten text\<close>

text \<open>The text of an occurrence \<^verbatim>\<open>{reference}\<close>.\<close>

definition occurrence :: "string \<Rightarrow> string" where
  "occurrence r = CHR ''{'' # r @ ''}''"


text \<open>The references of the occurrences that the scan of a text finds, from left to right.\<close>

function refs_of :: "string \<Rightarrow> string list" where
  "refs_of [] = []"
| "refs_of (c # cs) =
     (case match_ref (c # cs) of
        Some (r, rest) \<Rightarrow> r # refs_of rest
      | None \<Rightarrow> refs_of cs)"
  by pat_completeness auto
termination
  by (relation "measure length") (auto dest: match_ref_shorter simp del: match_ref.simps)

declare refs_of.simps [simp del]

lemma replace_refs_match:
  "match_ref (c # cs) = Some (r, rest) \<Longrightarrow>
   replace_refs f (c # cs) =
     (case f (CHR ''{'' # r @ ''}'') r of
        Inl e \<Rightarrow> Inl e
      | Inr (v, ws) \<Rightarrow>
          (case js_to_string v of
             Inl e \<Rightarrow> Inl e
           | Inr rep \<Rightarrow>
               (case replace_refs f rest of
                  Inl e \<Rightarrow> Inl e
                | Inr (out, ws') \<Rightarrow> Inr (rep @ out, ws @ ws'))))"
  by (subst replace_refs.simps) (simp del: match_ref.simps)

lemma replace_refs_no_match:
  "match_ref (c # cs) = None \<Longrightarrow>
   replace_refs f (c # cs) =
     (case replace_refs f cs of
        Inl e \<Rightarrow> Inl e
      | Inr (out, ws) \<Rightarrow> Inr (c # out, ws))"
  by (subst replace_refs.simps) (simp del: match_ref.simps)

lemma refs_of_match: "match_ref (c # cs) = Some (r, rest) \<Longrightarrow> refs_of (c # cs) = r # refs_of rest"
  by (subst refs_of.simps) (simp del: match_ref.simps)

lemma refs_of_no_match: "match_ref (c # cs) = None \<Longrightarrow> refs_of (c # cs) = refs_of cs"
  by (subst refs_of.simps) (simp del: match_ref.simps)

lemma match_ref_occurrence:
  assumes "r \<noteq> []" "list_all not_brace r"
  shows "match_ref (occurrence r @ post) = Some (r, post)"
proof -
  have "takeWhile not_brace (r @ CHR ''}'' # post) = r"
    using assms(2) by (simp add: takeWhile_append2 list_all_iff not_brace_def)
  moreover have "dropWhile not_brace (r @ CHR ''}'' # post) = CHR ''}'' # post"
    using assms(2) by (simp add: dropWhile_append2 list_all_iff not_brace_def)
  ultimately show ?thesis using assms(1) by (simp add: occurrence_def)
qed








subsection \<open>Paths through own properties\<close>

text \<open>A name that some built-in prototype has a member of.\<close>

definition member_name :: "string \<Rightarrow> bool" where
  "member_name k =
     (k \<in> set (object_members @ array_members @ string_members @ number_members))"

lemma inherited_member_name: "inherited v k \<Longrightarrow> member_name k"
  by (cases v) (auto simp: member_name_def)

lemma js_member_plain: "\<not> member_name k \<Longrightarrow> js_member v k = Inr (js_get v k)"
  using inherited_member_name by (auto simp: js_member_def)















subsection \<open>The retry on a dash\<close>


lemma split_on_whole: "c \<notin> set s \<Longrightarrow> split_on c s = [s]"
  by (induction s) auto














section \<open>The store as an object on the heap\<close>





















text \<open>
  The store \<^verbatim>\<open>{a: {$type: "color", $value: "#112233"}, b: {$type: "color",
  $value: "{a}"}}\<close>.
\<close>

definition ab_store :: "(string \<times> jsval) list" where
  "ab_store =
     [(''a'', Obj [(''$type'', Str ''color''), (''$value'', Str ''#112233'')]),
      (''b'', Obj [(''$type'', Str ''color''), (''$value'', Str ''{a}'')])]"








section \<open>The depth of the text rewriter\<close>

text \<open>
  The text that the callback hands to the recursive call for a reference, when it makes
  one: the value field of the node reached, or the node itself when it is a plain string,
  if that is a string of the form \<^verbatim>\<open>{...}\<close>.
\<close>

definition bracketed_text :: "jsval \<Rightarrow> string option" where
  "bracketed_text v = (case v of Str s \<Rightarrow> if bracketed s then Some s else None | _ \<Rightarrow> None)"

definition ref_callee :: "jsval \<Rightarrow> string \<Rightarrow> string option" where
  "ref_callee allTokens reference =
     (case css_walk allTokens (split_on CHR ''.'' reference) of
        Inr (Some v) \<Rightarrow>
          (if truthy v \<and> js_get v ''$value'' \<noteq> Undefined then bracketed_text (js_get v ''$value'')
           else if starts_with ''--'' reference then None
           else bracketed_text v)
      | _ \<Rightarrow> None)"

text \<open>The texts of the nested calls that rewriting \<open>css\<close> makes itself.\<close>

definition callees :: "jsval \<Rightarrow> string \<Rightarrow> string list" where
  "callees allTokens css = List.map_filter (ref_callee allTokens) (refs_of css)"

text \<open>
  The reference graph on a set \<open>S\<close> of texts: an edge for every nested call made while
  a text of \<open>S\<close> is rewritten.
\<close>

definition call_graph :: "jsval \<Rightarrow> string set \<Rightarrow> (string \<times> string) set" where
  "call_graph allTokens S = {(s, t). t \<in> S \<and> s \<in> set (callees allTokens t)}"

text \<open>
  A chain for the rewriter: the reference reached from \<open>r\<close> after \<open>n\<close> links, each
  from a reference to the single reference \<^verbatim>\<open>{r'}\<close> that its token holds.
\<close>

fun css_chain :: "jsval \<Rightarrow> nat \<Rightarrow> string \<Rightarrow> string option" where
  "css_chain allTokens 0 r = Some r"
| "css_chain allTokens (Suc n) r =
     (case ref_callee allTokens r of
        None \<Rightarrow> None
      | Some s \<Rightarrow>
          (case match_ref s of
             Some (r', []) \<Rightarrow> css_chain allTokens n r'
           | _ \<Rightarrow> None))"

subsection \<open>Where a RangeError comes from\<close>

lemma js_member_error: "js_member v k \<noteq> Inl RangeError"
  by (simp add: js_member_def)

lemma css_walk_error: "css_walk v parts \<noteq> Inl RangeError"
proof (induction parts arbitrary: v)
  case Nil
  then show ?case by simp
next
  case (Cons part parts)
  show ?case
    using Cons.IH js_member_error
    by (auto split: sum.splits if_splits list.splits)
qed

lemma js_to_string_error: "js_to_string v \<noteq> Inl RangeError"
  and join_elems_error: "join_elems xs \<noteq> Inl RangeError"
proof (induction v and xs rule: js_to_string_join_elems.induct)
  case (9 x xs)
  then show ?case
    by (cases "is_nullish x"; cases "xs = []") (auto split: sum.splits)
qed auto

lemma callback_recur:
  "ref_callee allTokens r = Some s \<Longrightarrow>
   css_callback recur allTokens m r = map_sum id (map_prod Str id) (recur s)"
  by (auto simp: ref_callee_def css_callback_def bracketed_text_def
      split: sum.splits option.splits if_splits jsval.splits)

lemma callback_no_recur:
  "ref_callee allTokens r = None \<Longrightarrow>
   css_callback recur allTokens m r = css_callback recur' allTokens m r
   \<and> css_callback recur allTokens m r \<noteq> Inl RangeError"
  using css_walk_error[of allTokens "split_on CHR ''.'' r"]
  by (auto simp: ref_callee_def css_callback_def bracketed_text_def
      split: sum.splits option.splits if_splits jsval.splits)

lemma replace_refs_no_overflow:
  "(\<And>r. r \<in> set (refs_of css) \<Longrightarrow> f (CHR ''{'' # r @ ''}'') r \<noteq> Inl RangeError) \<Longrightarrow>
   replace_refs f css \<noteq> Inl RangeError"
proof (induction "length css" arbitrary: css rule: less_induct)
  case less
  show ?case
  proof (cases css)
    case Nil
    then show ?thesis by (simp add: replace_refs.simps)
  next
    case (Cons c cs)
    show ?thesis
    proof (cases "match_ref (c # cs)")
      case None
      have "replace_refs f cs \<noteq> Inl RangeError"
        using less(1)[of cs] less(2) Cons refs_of_no_match[OF None] by simp
      then show ?thesis
        using Cons by (auto simp: replace_refs_no_match[OF None] split: sum.splits)
    next
      case (Some p)
      then obtain r rest where p: "match_ref (c # cs) = Some (r, rest)" by (cases p) simp
      have fr: "f (CHR ''{'' # r @ ''}'') r \<noteq> Inl RangeError"
        using less(2)[of r] Cons refs_of_match[OF p] by simp
      have "length rest < length css"
        using match_ref_shorter[OF p] Cons by simp
      then have "replace_refs f rest \<noteq> Inl RangeError"
        using less(1)[of rest] less(2) Cons refs_of_match[OF p] by simp
      then show ?thesis
        using Cons fr js_to_string_error
        by (auto simp: replace_refs_match[OF p] split: sum.splits)
    qed
  qed
qed

subsection \<open>More room on the stack\<close>

lemma replace_refs_mono:
  assumes "\<And>m r y. f m r = y \<Longrightarrow> y \<noteq> Inl RangeError \<Longrightarrow> g m r = y"
  shows "replace_refs f css = x \<Longrightarrow> x \<noteq> Inl RangeError \<Longrightarrow> replace_refs g css = x"
proof (induction "length css" arbitrary: css x rule: less_induct)
  case less
  show ?case
  proof (cases css)
    case Nil
    with less(2) show ?thesis by (simp add: replace_refs.simps)
  next
    case (Cons c cs)
    show ?thesis
    proof (cases "match_ref (c # cs)")
      case None
      obtain y where y: "replace_refs f cs = y" by simp
      have ny: "y \<noteq> Inl RangeError"
        using less(2,3) Cons y by (auto simp: replace_refs_no_match[OF None])
      have "replace_refs g cs = y"
        using less(1)[of cs y] y ny Cons by simp
      then show ?thesis
        using less(2) Cons y by (simp add: replace_refs_no_match[OF None])
    next
      case (Some p)
      then obtain r rest where p: "match_ref (c # cs) = Some (r, rest)" by (cases p) simp
      have lt: "length rest < length css"
        using match_ref_shorter[OF p] Cons by simp
      obtain y where y: "f (CHR ''{'' # r @ ''}'') r = y" by simp
      have ny: "y \<noteq> Inl RangeError"
        using less(2,3) Cons y by (auto simp: replace_refs_match[OF p])
      have gy: "g (CHR ''{'' # r @ ''}'') r = y"
        using assms[OF y ny] .
      show ?thesis
      proof (cases "\<exists>v ws rep. y = Inr (v, ws) \<and> js_to_string v = Inr rep")
        case False
        then show ?thesis
          using less(2) Cons y gy
          by (auto simp: replace_refs_match[OF p] split: sum.splits)
      next
        case True
        then obtain v ws rep where v: "y = Inr (v, ws)" "js_to_string v = Inr rep" by blast
        obtain z where z: "replace_refs f rest = z" by simp
        have nz: "z \<noteq> Inl RangeError"
          using less(2,3) Cons y v z by (auto simp: replace_refs_match[OF p])
        have "replace_refs g rest = z"
          using less(1)[OF lt z nz] .
        then show ?thesis
          using less(2) Cons y gy z
          by (auto simp: replace_refs_match[OF p] split: sum.splits prod.splits)
      qed
    qed
  qed
qed

lemma callback_mono:
  assumes "\<And>s y. recur s = y \<Longrightarrow> y \<noteq> Inl RangeError \<Longrightarrow> recur' s = y"
  shows "css_callback recur allTokens m r = y \<Longrightarrow> y \<noteq> Inl RangeError \<Longrightarrow>
         css_callback recur' allTokens m r = y"
proof (cases "ref_callee allTokens r")
  case None
  assume "css_callback recur allTokens m r = y"
  then show ?thesis
    using callback_no_recur[OF None, of recur m recur'] by simp
next
  case (Some s)
  assume c: "css_callback recur allTokens m r = y" and ny: "y \<noteq> Inl RangeError"
  have "recur s \<noteq> Inl RangeError"
    using c ny by (auto simp: callback_recur[OF Some])
  then have "recur' s = recur s"
    using assms[of s "recur s"] by simp
  then show ?thesis
    using c by (simp add: callback_recur[OF Some])
qed

lemma stack_Suc:
  "resolveCSSReferences n css allTokens = x \<Longrightarrow> x \<noteq> Inl RangeError \<Longrightarrow>
   resolveCSSReferences (Suc n) css allTokens = x"
proof (induction n arbitrary: css x)
  case 0
  then show ?case by simp
next
  case (Suc n)
  have "replace_refs (css_callback (\<lambda>s. resolveCSSReferences (Suc n) s allTokens) allTokens) css
        = x"
  proof (rule replace_refs_mono[where f = "css_callback (\<lambda>s. resolveCSSReferences n s allTokens) allTokens"])
    fix m r y
    assume "css_callback (\<lambda>s. resolveCSSReferences n s allTokens) allTokens m r = y"
      and "y \<noteq> Inl RangeError"
    then show "css_callback (\<lambda>s. resolveCSSReferences (Suc n) s allTokens) allTokens m r = y"
      by (rule callback_mono[rotated]) (rule Suc.IH)
  next
    show "replace_refs (css_callback (\<lambda>s. resolveCSSReferences n s allTokens) allTokens) css = x"
      using Suc.prems by simp
  next
    show "x \<noteq> Inl RangeError" using Suc.prems by simp
  qed
  then show ?case by simp
qed

lemma stack_mono:
  "resolveCSSReferences n css allTokens = x \<Longrightarrow> x \<noteq> Inl RangeError \<Longrightarrow> n \<le> k \<Longrightarrow>
   resolveCSSReferences k css allTokens = x"
  by (induction k) (auto simp: le_Suc_eq dest: stack_Suc simp del: resolveCSSReferences.simps)

lemma common_stack:
  "(\<And>s. s \<in> set xs \<Longrightarrow> \<exists>n. resolveCSSReferences n s allTokens \<noteq> Inl RangeError) \<Longrightarrow>
   \<exists>N. \<forall>s\<in>set xs. resolveCSSReferences N s allTokens \<noteq> Inl RangeError"
proof (induction xs)
  case Nil
  then show ?case by simp
next
  case (Cons x xs)
  then obtain N where N: "\<forall>s\<in>set xs. resolveCSSReferences N s allTokens \<noteq> Inl RangeError"
    by auto
  from Cons.prems[of x] obtain n where n: "resolveCSSReferences n x allTokens \<noteq> Inl RangeError"
    by auto
  have "\<forall>s\<in>set (x # xs). resolveCSSReferences (max n N) s allTokens \<noteq> Inl RangeError"
  proof
    fix s assume "s \<in> set (x # xs)"
    then consider "s = x" | "s \<in> set xs" by auto
    then show "resolveCSSReferences (max n N) s allTokens \<noteq> Inl RangeError"
    proof cases
      case 1
      from stack_mono[OF refl n, of "max n N"] n 1 show ?thesis by simp
    next
      case 2
      with N have "resolveCSSReferences N s allTokens \<noteq> Inl RangeError" by blast
      from stack_mono[OF refl this, of "max n N"] this show ?thesis by simp
    qed
  qed
  then show ?case by blast
qed

lemma step_no_overflow:
  assumes "\<forall>s\<in>set (callees allTokens css). resolveCSSReferences N s allTokens \<noteq> Inl RangeError"
  shows "resolveCSSReferences (Suc N) css allTokens \<noteq> Inl RangeError"
proof -
  have "replace_refs (css_callback (\<lambda>s. resolveCSSReferences N s allTokens) allTokens) css
        \<noteq> Inl RangeError"
  proof (rule replace_refs_no_overflow)
    fix r assume r: "r \<in> set (refs_of css)"
    show "css_callback (\<lambda>s. resolveCSSReferences N s allTokens) allTokens (CHR ''{'' # r @ ''}'') r
          \<noteq> Inl RangeError"
    proof (cases "ref_callee allTokens r")
      case None
      then show ?thesis using callback_no_recur by blast
    next
      case (Some s)
      then have "s \<in> set (callees allTokens css)"
        using r by (force simp: callees_def map_filter_def)
      then have "resolveCSSReferences N s allTokens \<noteq> Inl RangeError"
        using assms by blast
      then show ?thesis
        by (cases "resolveCSSReferences N s allTokens") (auto simp: callback_recur[OF Some])
    qed
  qed
  then show ?thesis by simp
qed

lemma acyclic_no_overflow:
  assumes fin: "finite S" and closed: "\<forall>t\<in>S. set (callees allTokens t) \<subseteq> S"
    and acyc: "acyclic (call_graph allTokens S)"
  shows "css \<in> S \<Longrightarrow> \<exists>n. resolveCSSReferences n css allTokens \<noteq> Inl RangeError"
proof -
  have sub: "call_graph allTokens S \<subseteq> S \<times> S"
    using closed by (auto simp: call_graph_def)
  have "finite (call_graph allTokens S)"
    using finite_subset[OF sub] fin by simp
  then have "wf (call_graph allTokens S)"
    using acyc by (rule finite_acyclic_wf)
  then show "css \<in> S \<Longrightarrow> \<exists>n. resolveCSSReferences n css allTokens \<noteq> Inl RangeError"
  proof (induction css rule: wf_induct_rule)
    case (less t)
    have "\<And>s. s \<in> set (callees allTokens t) \<Longrightarrow>
            \<exists>n. resolveCSSReferences n s allTokens \<noteq> Inl RangeError"
    proof -
      fix s assume s: "s \<in> set (callees allTokens t)"
      then have "(s, t) \<in> call_graph allTokens S" "s \<in> S"
        using less.prems closed by (auto simp: call_graph_def)
      then show "\<exists>n. resolveCSSReferences n s allTokens \<noteq> Inl RangeError"
        using less.IH by blast
    qed
    from common_stack[OF this] obtain N where
      "\<forall>s\<in>set (callees allTokens t). resolveCSSReferences N s allTokens \<noteq> Inl RangeError"
      by blast
    from step_no_overflow[OF this] show ?case by blast
  qed
qed

subsection \<open>Chains\<close>

lemma match_ref_single:
  assumes "match_ref s = Some (r, [])"
  shows "s = occurrence r \<and> r \<noteq> [] \<and> list_all not_brace r"
proof (cases s)
  case Nil
  with assms show ?thesis by simp
next
  case (Cons c cs)
  with assms have c: "c = CHR ''{''" and r: "r = takeWhile not_brace cs" and ne: "r \<noteq> []"
    and d: "dropWhile not_brace cs \<noteq> []" "hd (dropWhile not_brace cs) = CHR ''}''"
       "tl (dropWhile not_brace cs) = []"
    by (auto simp: Let_def split: if_splits)
  from d have "dropWhile not_brace cs = ''}''"
    by (cases "dropWhile not_brace cs") auto
  then have "cs = r @ ''}''"
    using r takeWhile_dropWhile_id[of not_brace cs] by simp
  moreover have "list_all not_brace r"
    unfolding r list_all_iff using set_takeWhileD by fastforce
  ultimately show ?thesis
    using Cons c ne by (simp add: occurrence_def)
qed

lemma single_occurrence:
  assumes "r \<noteq> []" "list_all not_brace r"
  shows "replace_refs f (occurrence r) =
     (case f (occurrence r) r of
        Inl e \<Rightarrow> Inl e
      | Inr (v, ws) \<Rightarrow>
          (case js_to_string v of
             Inl e \<Rightarrow> Inl e
           | Inr rep \<Rightarrow> Inr (rep, ws)))"
proof -
  have m: "match_ref (CHR ''{'' # r @ ''}'') = Some (r, [])"
    using match_ref_occurrence[OF assms, of "[]"] by (simp add: occurrence_def)
  show ?thesis
    unfolding occurrence_def
    by (simp add: replace_refs_match[OF m] replace_refs.simps(1)
        split: sum.splits prod.splits)
qed

lemma single_step:
  assumes "r \<noteq> []" "list_all not_brace r" "ref_callee allTokens r = Some s"
  shows "resolveCSSReferences (Suc n) (occurrence r) allTokens = resolveCSSReferences n s allTokens"
proof (cases "resolveCSSReferences n s allTokens")
  case (Inl e)
  then show ?thesis
    by (simp add: single_occurrence[OF assms(1,2)] callback_recur[OF assms(3)])
next
  case (Inr xw)
  obtain x ws where "xw = (x, ws)" by (cases xw)
  with Inr show ?thesis
    by (simp add: single_occurrence[OF assms(1,2)] callback_recur[OF assms(3)])
qed

lemma single_final:
  assumes "r \<noteq> []" "list_all not_brace r" "ref_callee allTokens r = None"
    and "css_callback (\<lambda>s. Inl RangeError) allTokens (occurrence r) r = Inr (v, ws)"
    and "js_to_string v = Inr lit"
  shows "resolveCSSReferences (Suc n) (occurrence r) allTokens = Inr (lit, ws)"
  using callback_no_recur[OF assms(3), of "\<lambda>s. resolveCSSReferences n s allTokens" "occurrence r"
      "\<lambda>s. Inl RangeError"]
    assms(4,5)
  by (simp add: single_occurrence[OF assms(1,2)])

lemma chain_resolved:
  assumes "ref_callee allTokens r' = None"
    and "css_callback (\<lambda>s. Inl RangeError) allTokens (occurrence r') r' = Inr (v, ws)"
    and "js_to_string v = Inr lit"
  shows "r \<noteq> [] \<Longrightarrow> list_all not_brace r \<Longrightarrow> css_chain allTokens k r = Some r' \<Longrightarrow>
         resolveCSSReferences (Suc k) (occurrence r) allTokens = Inr (lit, ws)"
proof (induction k arbitrary: r)
  case 0
  then show ?case
    using single_final[OF _ _ assms, of 0] by (simp del: resolveCSSReferences.simps)
next
  case (Suc k)
  from Suc.prems(3) obtain s r1 where s: "ref_callee allTokens r = Some s"
    and m: "match_ref s = Some (r1, [])" and c: "css_chain allTokens k r1 = Some r'"
    by (auto split: option.splits list.splits)
  from match_ref_single[OF m] have s1: "s = occurrence r1" "r1 \<noteq> []" "list_all not_brace r1"
    by simp_all
  have "resolveCSSReferences (Suc (Suc k)) (occurrence r) allTokens
        = resolveCSSReferences (Suc k) (occurrence r1) allTokens"
    using single_step[OF Suc.prems(1,2) s] s1(1) by (simp del: resolveCSSReferences.simps)
  then show ?case
    using Suc.IH[OF s1(2,3) c] by (simp del: resolveCSSReferences.simps)
qed

lemma chain_overflow:
  "r \<noteq> [] \<Longrightarrow> list_all not_brace r \<Longrightarrow> css_chain allTokens k r = Some r' \<Longrightarrow> n \<le> k \<Longrightarrow>
   resolveCSSReferences n (occurrence r) allTokens = Inl RangeError"
proof (induction n arbitrary: r k)
  case 0
  then show ?case by simp
next
  case (Suc n)
  from Suc.prems(4) obtain k' where k: "k = Suc k'" "n \<le> k'"
    by (cases k) auto
  from Suc.prems(3) k obtain s r1 where s: "ref_callee allTokens r = Some s"
    and m: "match_ref s = Some (r1, [])" and c: "css_chain allTokens k' r1 = Some r'"
    by (auto split: option.splits list.splits)
  from match_ref_single[OF m] have s1: "s = occurrence r1" "r1 \<noteq> []" "list_all not_brace r1"
    by simp_all
  have "resolveCSSReferences (Suc n) (occurrence r) allTokens
        = resolveCSSReferences n (occurrence r1) allTokens"
    using single_step[OF Suc.prems(1,2) s] s1(1) by (simp del: resolveCSSReferences.simps)
  then show ?case
    using Suc.IH[OF s1(2,3) c k(2)] by (simp del: resolveCSSReferences.simps)
qed

subsection \<open>A chain of any length\<close>

text \<open>
  The store with the tokens \<^verbatim>\<open>x\<close>, \<^verbatim>\<open>xx\<close>, \<^verbatim>\<open>xxx\<close>, ..., each
  holding the reference to the next, and the last of them, link \<open>n\<close>, holding the
  literal \<^verbatim>\<open>#000\<close>: a chain of \<open>n\<close> links.
\<close>

definition link_name :: "nat \<Rightarrow> string" where
  "link_name i = replicate (Suc i) CHR ''x''"

definition link_token :: "nat \<Rightarrow> nat \<Rightarrow> jsval" where
  "link_token n i = color_token (if i < n then occurrence (link_name (Suc i)) else ''#000'')"

definition chain_store :: "nat \<Rightarrow> jsval" where
  "chain_store n = Obj (map (\<lambda>i. (link_name i, link_token n i)) [0..<Suc n])"

text \<open>The texts of the calls that rewriting \<^verbatim>\<open>{x}\<close> makes with this store.\<close>

definition chain_texts :: "nat \<Rightarrow> string set" where
  "chain_texts n = (\<lambda>i. occurrence (link_name i)) ` {..n}"

lemma link_name_plain:
  "link_name i \<noteq> []" "list_all not_brace (link_name i)" "CHR ''.'' \<notin> set (link_name i)"
  "\<not> starts_with ''--'' (link_name i)"
  by (simp_all add: link_name_def not_brace_def list_all_iff starts_with_def)

lemma link_name_not_member: "\<not> member_name (link_name i)"
  by (simp add: link_name_def member_name_def object_members_def array_members_def
      string_members_def number_members_def)

lemma link_name_inj: "link_name i = link_name j \<longleftrightarrow> i = j"
  by (simp add: link_name_def replicate_eq_replicate)

lemma chain_lookup:
  assumes "j \<le> n"
  shows "map_of (map (\<lambda>i. (link_name i, link_token n i)) [0..<Suc n]) (link_name j)
         = Some (link_token n j)"
proof (rule map_of_is_SomeI)
  have "inj_on link_name (set [0..<Suc n])"
    by (simp add: inj_on_def link_name_inj)
  then show "distinct (map fst (map (\<lambda>i. (link_name i, link_token n i)) [0..<Suc n]))"
    by (simp add: comp_def distinct_map del: upt_Suc)
  show "(link_name j, link_token n j) \<in> set (map (\<lambda>i. (link_name i, link_token n i)) [0..<Suc n])"
    using assms by (auto simp del: upt_Suc)
qed

lemma chain_walk:
  assumes "j \<le> n"
  shows "css_walk (chain_store n) (split_on CHR ''.'' (link_name j)) = Inr (Some (link_token n j))"
proof -
  have "js_member (chain_store n) (link_name j) = Inr (link_token n j)"
    using chain_lookup[OF assms]
    by (simp add: js_member_plain link_name_not_member chain_store_def del: upt_Suc)
  then show ?thesis
    by (simp add: split_on_whole link_name_plain chain_store_def link_token_def color_token_def
        del: upt_Suc)
qed

lemma bracketed_occurrence: "bracketed (occurrence r)"
  by (simp add: bracketed_def occurrence_def)

lemma chain_callee:
  "j < n \<Longrightarrow> ref_callee (chain_store n) (link_name j) = Some (occurrence (link_name (Suc j)))"
  "ref_callee (chain_store n) (link_name n) = None"
proof -
  show "j < n \<Longrightarrow> ref_callee (chain_store n) (link_name j) = Some (occurrence (link_name (Suc j)))"
    by (simp add: ref_callee_def chain_walk link_token_def color_token_def bracketed_text_def
        bracketed_occurrence)
  show "ref_callee (chain_store n) (link_name n) = None"
    by (simp add: ref_callee_def chain_walk link_token_def color_token_def bracketed_text_def
        bracketed_def)
qed

lemma chain_final:
  "css_callback recur (chain_store n) m (link_name n) = Inr (Str ''#000'', [])"
  by (simp add: css_callback_def chain_walk link_token_def color_token_def bracketed_def)

lemma chain_css_chain:
  "j + k \<le> n \<Longrightarrow> css_chain (chain_store n) k (link_name j) = Some (link_name (j + k))"
proof (induction k arbitrary: j)
  case 0
  then show ?case by simp
next
  case (Suc k)
  have m: "match_ref (occurrence (link_name (Suc j))) = Some (link_name (Suc j), [])"
    using match_ref_occurrence[OF link_name_plain(1,2), of "Suc j" "[]"] by simp
  show ?case
    using Suc.prems Suc.IH[of "Suc j"] by (simp add: chain_callee m del: match_ref.simps)
qed

lemma refs_of_single: "r \<noteq> [] \<Longrightarrow> list_all not_brace r \<Longrightarrow> refs_of (occurrence r) = [r]"
  using match_ref_occurrence[of r "[]"]
  by (simp add: occurrence_def refs_of_match refs_of.simps(1) del: match_ref.simps)

lemma chain_callees:
  "j \<le> n \<Longrightarrow> callees (chain_store n) (occurrence (link_name j))
     = (if j < n then [occurrence (link_name (Suc j))] else [])"
  by (auto simp: callees_def refs_of_single link_name_plain map_filter_def chain_callee)

lemma chain_graph:
  "finite (chain_texts n)"
  "\<forall>t\<in>chain_texts n. set (callees (chain_store n) t) \<subseteq> chain_texts n"
  "acyclic (call_graph (chain_store n) (chain_texts n))"
proof -
  show "finite (chain_texts n)"
    by (simp add: chain_texts_def)
  show "\<forall>t\<in>chain_texts n. set (callees (chain_store n) t) \<subseteq> chain_texts n"
    by (auto simp: chain_texts_def chain_callees)
  have "length t < length s" if "(s, t) \<in> call_graph (chain_store n) (chain_texts n)" for s t
  proof -
    from that obtain j where j: "j \<le> n" "t = occurrence (link_name j)"
      and s: "s \<in> set (callees (chain_store n) t)"
      by (auto simp: call_graph_def chain_texts_def)
    from s j have "s = occurrence (link_name (Suc j))"
      by (simp add: chain_callees split: if_splits)
    with j show ?thesis
      by (simp add: occurrence_def link_name_def)
  qed
  then have "call_graph (chain_store n) (chain_texts n) \<subseteq> (measure length)\<inverse>"
    by auto
  moreover have "acyclic ((measure length :: (string \<times> string) set)\<inverse>)"
    by (simp add: wf_acyclic)
  ultimately show "acyclic (call_graph (chain_store n) (chain_texts n))"
    by (rule acyclic_subset[rotated])
qed

subsection \<open>The chain of twelve tokens and the store of two\<close>

lemma chain12_callees:
  "ref_callee chain12 ''t1'' = Some ''{t2}''"
  "ref_callee chain12 ''t2'' = Some ''{t3}''"
  "ref_callee chain12 ''t3'' = Some ''{t4}''"
  "ref_callee chain12 ''t4'' = Some ''{t5}''"
  "ref_callee chain12 ''t5'' = Some ''{t6}''"
  "ref_callee chain12 ''t6'' = Some ''{t7}''"
  "ref_callee chain12 ''t7'' = Some ''{t8}''"
  "ref_callee chain12 ''t8'' = Some ''{t9}''"
  "ref_callee chain12 ''t9'' = Some ''{t10}''"
  "ref_callee chain12 ''t10'' = Some ''{t11}''"
  "ref_callee chain12 ''t11'' = Some ''{t12}''"
  "ref_callee chain12 ''t12'' = None"
  by (simp_all add: ref_callee_def chain12_def color_token_def bracketed_text_def bracketed_def
      js_member_def)

lemma chain12_css_chain: "css_chain chain12 11 ''t1'' = Some ''t12''"
  by (simp add: eval_nat_numeral chain12_callees not_brace_def)

lemma chain12_final:
  "css_callback (\<lambda>s. Inl RangeError) chain12 (occurrence ''t12'') ''t12'' = Inr (Str ''#000'', [])"
  by (simp add: css_callback_def chain12_def color_token_def bracketed_def js_member_def)

lemma ab_callees:
  "callees (Obj ab_store) ''{b}'' = [''{a}'']"
  "callees (Obj ab_store) ''{a}'' = []"
  by (simp_all add: callees_def refs_of.simps not_brace_def map_filter_def ref_callee_def
      ab_store_def bracketed_text_def bracketed_def js_member_def)

lemma ab_call_graph: "call_graph (Obj ab_store) {''{b}'', ''{a}''} = {(''{a}'', ''{b}'')}"
  by (auto simp: call_graph_def ab_callees)

text \<open>
  C7, as stated, fails on a chain that is longer than the call stack is deep. The rewriter
  has no ceiling of its own, but each link of a chain is a nested call, and a call for
  which the stack has no room raises a \<open>RangeError\<close>. For every depth of the stack
  there is a store with an acyclic reference graph and a chain that is not resolved; here
  with room for 3000 nested calls and a chain of 3000 links.
\<close>

theorem rewriter_overflow_counterexample:
  "finite (chain_texts 3000)
   \<and> acyclic (call_graph (chain_store 3000) (chain_texts 3000))
   \<and> css_chain (chain_store 3000) 3000 (link_name 0) = Some (link_name 3000)
   \<and> css_callback (\<lambda>s. Inl RangeError) (chain_store 3000) (occurrence (link_name 3000))
        (link_name 3000) = Inr (Str ''#000'', [])
   \<and> resolveCSSReferences 3000 (occurrence (link_name 0)) (chain_store 3000) = Inl RangeError"
proof -
  have c: "css_chain (chain_store 3000) 3000 (link_name 0) = Some (link_name 3000)"
    using chain_css_chain[of 0 3000 3000] by simp
  have "resolveCSSReferences 3000 (occurrence (link_name 0)) (chain_store 3000) = Inl RangeError"
    using chain_overflow[OF link_name_plain(1,2) c] by simp
  then show ?thesis
    using c chain_graph(1,3) chain_final by simp
qed

text \<open>
  C7, amended. The rewriter applies no depth ceiling of its own, and every nested call
  stands on the call stack. With a store whose reference graph, on a finite set of texts
  closed under nested calls, is acyclic, a call does not overflow the stack when the
  stack is deep enough, and more room changes nothing in what a call that did not
  overflow has returned or raised. A chain of \<open>k\<close> links from a reference to a final
  reference that resolves without a nested call is resolved to the value of that final
  reference whenever the stack has room for more than \<open>k\<close> nested calls of the
  rewriter, also when \<open>k\<close> is above 10, where the resolver stops; with room for at
  most \<open>k\<close> nested calls, the call raises a \<open>RangeError\<close>.
\<close>

theorem rewriter_unbounded:
  "(finite S \<and> css \<in> S \<and> (\<forall>t\<in>S. set (callees allTokens t) \<subseteq> S)
      \<and> acyclic (call_graph allTokens S)
     \<longrightarrow> (\<exists>n. resolveCSSReferences n css allTokens \<noteq> Inl RangeError))
   \<and> (resolveCSSReferences n css allTokens \<noteq> Inl RangeError \<and> n \<le> m
     \<longrightarrow> resolveCSSReferences m css allTokens = resolveCSSReferences n css allTokens)
   \<and> (r \<noteq> [] \<and> list_all not_brace r \<and> css_chain store k r = Some r'
      \<and> ref_callee store r' = None
      \<and> css_callback (\<lambda>s. Inl RangeError) store (occurrence r') r' = Inr (v, ws)
      \<and> js_to_string v = Inr lit \<and> k < d
     \<longrightarrow> resolveCSSReferences d (occurrence r) store = Inr (lit, ws))
   \<and> (r \<noteq> [] \<and> list_all not_brace r \<and> css_chain store k r = Some r' \<and> d' \<le> k
     \<longrightarrow> resolveCSSReferences d' (occurrence r) store = Inl RangeError)"
proof -
  have a: "finite S \<and> css \<in> S \<and> (\<forall>t\<in>S. set (callees allTokens t) \<subseteq> S)
      \<and> acyclic (call_graph allTokens S)
     \<longrightarrow> (\<exists>n. resolveCSSReferences n css allTokens \<noteq> Inl RangeError)"
    using acyclic_no_overflow by blast
  have b: "resolveCSSReferences n css allTokens \<noteq> Inl RangeError \<and> n \<le> m
     \<longrightarrow> resolveCSSReferences m css allTokens = resolveCSSReferences n css allTokens"
    using stack_mono[OF refl, of n css allTokens m] by blast
  have c: "r \<noteq> [] \<and> list_all not_brace r \<and> css_chain store k r = Some r'
      \<and> ref_callee store r' = None
      \<and> css_callback (\<lambda>s. Inl RangeError) store (occurrence r') r' = Inr (v, ws)
      \<and> js_to_string v = Inr lit \<and> k < d
     \<longrightarrow> resolveCSSReferences d (occurrence r) store = Inr (lit, ws)"
  proof
    assume h: "r \<noteq> [] \<and> list_all not_brace r \<and> css_chain store k r = Some r'
      \<and> ref_callee store r' = None
      \<and> css_callback (\<lambda>s. Inl RangeError) store (occurrence r') r' = Inr (v, ws)
      \<and> js_to_string v = Inr lit \<and> k < d"
    then have "resolveCSSReferences (Suc k) (occurrence r) store = Inr (lit, ws)"
      using chain_resolved[of store r' v ws lit r k] by blast
    from stack_mono[OF this, of d] h
    show "resolveCSSReferences d (occurrence r) store = Inr (lit, ws)"
      by simp
  qed
  have e: "r \<noteq> [] \<and> list_all not_brace r \<and> css_chain store k r = Some r' \<and> d' \<le> k
     \<longrightarrow> resolveCSSReferences d' (occurrence r) store = Inl RangeError"
    using chain_overflow by blast
  from a b c e show ?thesis by blast
qed

theorem rewriter_unbounded_witness:
  "finite {''{b}'', ''{a}''}
   \<and> acyclic (call_graph (Obj ab_store) {''{b}'', ''{a}''})
   \<and> (\<exists>n. resolveCSSReferences n ''{b}'' (Obj ab_store) \<noteq> Inl RangeError)
   \<and> css_chain chain12 11 ''t1'' = Some ''t12''
   \<and> resolveCSSReferences 12 ''{t1}'' chain12 = Inr (''#000'', [])
   \<and> resolveCSSReferences 13 ''{t1}'' chain12 = resolveCSSReferences 12 ''{t1}'' chain12
   \<and> resolveCSSReferences 11 ''{t1}'' chain12 = Inl RangeError"
proof -
  have ac: "acyclic (call_graph (Obj ab_store) {''{b}'', ''{a}''})"
    by (rule wf_acyclic) (simp add: ab_call_graph wf_insert)
  have cl: "\<forall>t\<in>{''{b}'', ''{a}''}. set (callees (Obj ab_store) t) \<subseteq> {''{b}'', ''{a}''}"
    by (simp add: ab_callees)
  have a: "(\<exists>n. resolveCSSReferences n ''{b}'' (Obj ab_store) \<noteq> Inl RangeError)
     \<and> resolveCSSReferences 12 ''{t1}'' chain12 = Inr (''#000'', [])
     \<and> resolveCSSReferences 11 ''{t1}'' chain12 = Inl RangeError"
    using rewriter_unbounded
      [where S = "{''{b}'', ''{a}''}" and css = "''{b}''" and allTokens = "Obj ab_store"
         and r = "''t1''" and store = chain12 and k = 11 and r' = "''t12''"
         and v = "Str ''#000''" and ws = "[]" and lit = "''#000''" and d = 12 and d' = 11
         and n = 0 and m = 0]
      ac cl chain12_css_chain chain12_final
    by (simp add: chain12_callees not_brace_def occurrence_def
        del: resolveCSSReferences.simps)
  have b: "resolveCSSReferences 13 ''{t1}'' chain12 = resolveCSSReferences 12 ''{t1}'' chain12"
    using rewriter_unbounded
      [where css = "''{t1}''" and allTokens = chain12 and n = 12 and m = 13] a
    by (simp del: resolveCSSReferences.simps)
  from a b ac chain12_css_chain show ?thesis
    by (simp del: resolveCSSReferences.simps)
qed


end
